theory Spec2Isabelle
  imports Complex_Main "HOL-Library.Word"
begin

unbundle bit_operations_syntax

section \<open>Data model\<close>

text \<open>
  The records of \<^verbatim>\<open>types.ts\<close>. A \<^verbatim>\<open>Date\<close> is its number of milliseconds.
  The fields \<^verbatim>\<open>id\<close> and \<^verbatim>\<open>text\<close> of a transcription entry carry a suffix,
  since both names are taken in Isabelle.
\<close>

datatype Role = User | Assistant

type_synonym Date = nat

record TranscriptionEntry =
  id_entry :: string
  role :: Role
  text_entry :: string
  timestamp :: Date

record GroundingSource =
  title :: string
  uri :: string

subsection \<open>Inbound messages\<close>

text \<open>
  The fields of a \<^verbatim>\<open>LiveServerMessage\<close> that \<^verbatim>\<open>onmessage\<close> reads. A field the
  source reaches through \<^verbatim>\<open>?.\<close> or tests for truthiness is an option: \<open>None\<close> is
  \<^verbatim>\<open>undefined\<close>.
\<close>

record InlineData =
  data :: "string option"

record Part =
  inlineData :: "InlineData option"

record Content =
  parts :: "Part list option"

record Transcription =
  text_transcription :: "string option"

record Web =
  web_title :: "string option"
  web_uri :: string

record GroundingChunk =
  web :: "Web option"

record ServerContent =
  modelTurn :: "Content option"
  interrupted :: bool
  inputTranscription :: "Transcription option"
  outputTranscription :: "Transcription option"
  turnComplete :: bool
  groundingChunks :: "GroundingChunk list option"

record LiveServerMessage =
  serverContent :: "ServerContent option"

subsection \<open>Platform objects\<close>

text \<open>
  Objects of the browser and of the transport (media streams, audio contexts, buffer
  source nodes, the remote session) are handles; every call the program makes on one of
  them is an effect, recorded in call order. \<open>TrackStop\<close> is
  \<^verbatim>\<open>MediaStreamTrack.stop()\<close>, the call that releases a microphone.
\<close>

type_synonym handle = nat

datatype Effect =
    GetUserMedia handle
  | NewAudioContext handle nat
  | Connect handle
  | TrackStop handle
  | ContextClose handle
  | SourceStart handle real
  | SourceStop handle
  | SessionClose handle
  | SendRealtimeInput handle "real list"

text \<open>
  An \<^verbatim>\<open>AudioBuffer\<close> of the Web Audio API: its \<^verbatim>\<open>duration\<close> attribute is the
  number of sample frames divided by the sample rate.
\<close>

record AudioBuffer =
  sampleRate :: nat
  length_buffer :: nat

definition duration :: "AudioBuffer \<Rightarrow> real" where
  "duration b = real (length_buffer b) / real (sampleRate b)"

datatype Failure = TypeError | DecodeError

text \<open>
  What the program takes from its environment: the successive results of
  \<^verbatim>\<open>Math.random().toString(36)\<close> and of \<^verbatim>\<open>new Date()\<close>, the composition
  \<^verbatim>\<open>decodeAudioData(decode(base64), ctx, 24000, 1)\<close> of the absent \<^verbatim>\<open>utils\<close>
  module, and how React processes a state update made outside one of its own event
  handlers. With \<open>syncFlush\<close> the component is rendered again before the set-state call
  returns (a legacy root). Without, the updater function is queued and React calls it
  during the next render, after the running handler has finished (a root made by
  \<^verbatim>\<open>createRoot\<close>, React 18 and later); there, when no update of the component is
  pending, React may still call the updater at once and queue its result instead, which
  it does or not by its own bookkeeping: \<open>eagerState\<close>.
\<close>

record Platform =
  random :: "nat \<Rightarrow> string"
  newDate :: "nat \<Rightarrow> Date"
  decodeAudioData :: "string \<Rightarrow> Failure + AudioBuffer"
  syncFlush :: bool
  eagerState :: bool

text \<open>
  A queued update of \<open>entries\<close>: the arrow function of line 113 or of line 121, given by
  its role, not yet called; or the entry that an updater called at once has made.
\<close>

datatype Update = Deferred Role | Computed TranscriptionEntry

text \<open>
  What the program hands to \<^verbatim>\<open>then\<close> on the promise of \<^verbatim>\<open>connect\<close>: the arrow
  function of line 32, which closes the session, or that of line 61, which sends a
  frame. It is called once the promise has fulfilled, and never if the promise rejects.
\<close>

datatype Continuation = CloseSession | SendInput "real list"

section \<open>The session controller (App)\<close>

text \<open>
  The state of the component: its React state, its refs, and what the model adds to
  make the rest explicit: the updates of \<open>entries\<close> that React has queued, the value of
  \<open>isMuted\<close> that the callbacks of the running session closed over and the session
  promise they closed over, the promises of \<^verbatim>\<open>connect\<close> that have fulfilled and
  those that have rejected, the continuations that wait on a pending promise, the
  number of draws made from the platform, the next unused handle, and the effects.
\<close>

record App =
  isActive :: bool
  isMuted :: bool
  entries :: "TranscriptionEntry list"
  groundingSources :: "GroundingSource list"
  audioStream :: "handle option"
  error :: "string option"
  nextStartTimeRef :: real
  audioContextOutRef :: "handle option"
  audioContextInRef :: "handle option"
  audioSourcesRef :: "handle list"
  sessionPromiseRef :: "handle option"
  currentInputTranscriptionRef :: string
  currentOutputTranscriptionRef :: string
  entriesQueue :: "Update list"
  isMuted_closure :: bool
  session_closure :: handle
  fulfilled :: "handle list"
  rejected :: "handle list"
  waiting :: "(handle \<times> Continuation) list"
  draws :: nat
  fresh :: handle
  effects :: "Effect list"

subsection \<open>JavaScript containers\<close>

text \<open>
  A \<^verbatim>\<open>Set\<close> is the list of its members in insertion order. A \<^verbatim>\<open>Map\<close> is the
  list of its entries in insertion order: \<^verbatim>\<open>set\<close> on a key that is present replaces
  the value where the entry stands, and on a new key appends an entry.
\<close>

definition set_add :: "'a \<Rightarrow> 'a list \<Rightarrow> 'a list" where
  "set_add x xs = (if x \<in> set xs then xs else xs @ [x])"

definition set_delete :: "'a \<Rightarrow> 'a list \<Rightarrow> 'a list" where
  "set_delete x xs = filter (\<lambda>y. y \<noteq> x) xs"

fun map_set :: "'k \<Rightarrow> 'v \<Rightarrow> ('k \<times> 'v) list \<Rightarrow> ('k \<times> 'v) list" where
  "map_set k v [] = [(k, v)]"
| "map_set k v ((k', v') # m) =
     (if k' = k then (k, v) # m else (k', v') # map_set k v m)"

text \<open>\<^verbatim>\<open>new Map(entries)\<close> sets the entries one by one, from the first.\<close>

fun map_set_all :: "('k \<times> 'v) list \<Rightarrow> ('k \<times> 'v) list \<Rightarrow> ('k \<times> 'v) list" where
  "map_set_all [] m = m"
| "map_set_all ((k, v) # es) m = map_set_all es (map_set k v m)"

definition new_Map :: "('k \<times> 'v) list \<Rightarrow> ('k \<times> 'v) list" where
  "new_Map es = map_set_all es []"

definition map_values :: "('k \<times> 'v) list \<Rightarrow> 'v list" where
  "map_values m = map snd m"

subsection \<open>Grounding sources (lines 133-151)\<close>

text \<open>\<^verbatim>\<open>chunk.web.title || 'Untitled Source'\<close>: a missing or empty title is falsy.\<close>

definition title_or_default :: "string option \<Rightarrow> string" where
  "title_or_default t =
     (case t of None \<Rightarrow> ''Untitled Source''
      | Some x \<Rightarrow> if x = [] then ''Untitled Source'' else x)"

text \<open>The \<^verbatim>\<open>chunks.forEach\<close> loop, pushing onto \<^verbatim>\<open>newSources\<close>.\<close>

fun collect_sources :: "GroundingChunk list \<Rightarrow> GroundingSource list \<Rightarrow> GroundingSource list" where
  "collect_sources [] newSources = newSources"
| "collect_sources (chunk # chunks) newSources =
     collect_sources chunks
       (case web chunk of
          None \<Rightarrow> newSources
        | Some w \<Rightarrow> newSources @ [\<lparr>title = title_or_default (web_title w), uri = web_uri w\<rparr>])"

text \<open>
  The updater of line 145. It reads only its argument and the local constant
  \<^verbatim>\<open>newSources\<close>, so it computes the same list whenever React runs it, and the model
  applies it at once.
\<close>

definition merge_sources :: "GroundingSource list \<Rightarrow> GroundingSource list \<Rightarrow> GroundingSource list" where
  "merge_sources newSources prev =
     (let combined = prev @ newSources
      in map_values (new_Map (map (\<lambda>s. (uri s, s)) combined)))"

definition handle_grounding :: "ServerContent \<Rightarrow> App \<Rightarrow> App" where
  "handle_grounding c s =
     (case groundingChunks c of
        None \<Rightarrow> s
      | Some chunks \<Rightarrow>
          (let newSources = collect_sources chunks []
           in if length newSources > 0
              then s\<lparr>groundingSources := merge_sources newSources (groundingSources s)\<rparr>
              else s))"

subsection \<open>Playback (lines 72-100)\<close>

text \<open>
  \<^verbatim>\<open>message.serverContent?.modelTurn?.parts[0]?.inlineData?.data\<close>: there is no
  \<^verbatim>\<open>?.\<close> after \<^verbatim>\<open>parts\<close>, so a model turn without parts raises a TypeError.
\<close>

definition base64Audio :: "ServerContent \<Rightarrow> Failure + string option" where
  "base64Audio c =
     (case modelTurn c of
        None \<Rightarrow> Inr None
      | Some t \<Rightarrow>
          (case parts t of
             None \<Rightarrow> Inl TypeError
           | Some ps \<Rightarrow>
               (case ps of
                  [] \<Rightarrow> Inr None
                | p # _ \<Rightarrow>
                    (case inlineData p of
                       None \<Rightarrow> Inr None
                     | Some d \<Rightarrow> Inr (data d)))))"

text \<open>
  Lines 81-92, for a decoded buffer, at the output clock \<open>now\<close>
  (\<^verbatim>\<open>audioContextOut.currentTime\<close>): a new source node is started at the larger of
  the cursor and the clock, the cursor moves to the end of the buffer, and the node
  joins the active set.
\<close>

definition schedule_chunk :: "real \<Rightarrow> AudioBuffer \<Rightarrow> App \<Rightarrow> App" where
  "schedule_chunk now audioBuffer s =
     (let source = fresh s;
          startAt = max (nextStartTimeRef s) now
      in s\<lparr>nextStartTimeRef := startAt + duration audioBuffer,
           audioSourcesRef := set_add source (audioSourcesRef s),
           fresh := Suc source,
           effects := effects s @ [SourceStart source startAt]\<rparr>)"

text \<open>\<^verbatim>\<open>source.onended\<close>: the node leaves the active set.\<close>

definition onended :: "handle \<Rightarrow> App \<Rightarrow> App" where
  "onended source s = s\<lparr>audioSourcesRef := set_delete source (audioSourcesRef s)\<rparr>"

text \<open>Lines 96-100.\<close>

definition handle_interrupted :: "App \<Rightarrow> App" where
  "handle_interrupted s =
     s\<lparr>audioSourcesRef := [],
       nextStartTimeRef := 0,
       effects := effects s @ map SourceStop (audioSourcesRef s)\<rparr>"

subsection \<open>Transcription (lines 103-130)\<close>

text \<open>
  \<^verbatim>\<open>+= transcription.text\<close>: a transcription object without text appends the string
  \<^verbatim>\<open>undefined\<close>.
\<close>

definition text_of :: "Transcription \<Rightarrow> string" where
  "text_of t = (case text_transcription t of None \<Rightarrow> ''undefined'' | Some x \<Rightarrow> x)"

definition handle_transcription :: "ServerContent \<Rightarrow> App \<Rightarrow> App" where
  "handle_transcription c s =
     (let s1 = (case inputTranscription c of
                  None \<Rightarrow> s
                | Some t \<Rightarrow> s\<lparr>currentInputTranscriptionRef :=
                               currentInputTranscriptionRef s @ text_of t\<rparr>)
      in (case outputTranscription c of
            None \<Rightarrow> s1
          | Some t \<Rightarrow> s1\<lparr>currentOutputTranscriptionRef :=
                          currentOutputTranscriptionRef s1 @ text_of t\<rparr>))"

text \<open>
  The object literal of lines 113-118 and of lines 121-126, evaluated on state \<open>s\<close>. It
  stands inside the arrow function, so the id, the text and the timestamp are computed
  when the function is called, and the text is the content of the ref at that moment.
\<close>

definition new_entry :: "Platform \<Rightarrow> Role \<Rightarrow> App \<Rightarrow> TranscriptionEntry" where
  "new_entry pf r s =
     \<lparr>id_entry = random pf (draws s),
      role = r,
      text_entry = (case r of
                      User \<Rightarrow> currentInputTranscriptionRef s
                    | Assistant \<Rightarrow> currentOutputTranscriptionRef s),
      timestamp = newDate pf (draws s)\<rparr>"

text \<open>The arrow function \<^verbatim>\<open>prev => [...prev, {...}]\<close>, called on state \<open>s\<close>.\<close>

definition run_updater :: "Platform \<Rightarrow> Role \<Rightarrow> App \<Rightarrow> App" where
  "run_updater pf r s =
     s\<lparr>entries := entries s @ [new_entry pf r s], draws := Suc (draws s)\<rparr>"

text \<open>
  \<^verbatim>\<open>setEntries(updater)\<close>: under a synchronous flush the updater is called at once
  and the state replaced; otherwise the update is queued, with its result if nothing is
  queued and React computes eagerly, and as the function still to be called if not.
\<close>

definition setEntries :: "Platform \<Rightarrow> Role \<Rightarrow> App \<Rightarrow> App" where
  "setEntries pf r s =
     (if syncFlush pf then run_updater pf r s
      else if eagerState pf \<and> entriesQueue s = []
      then s\<lparr>entriesQueue := [Computed (new_entry pf r s)], draws := Suc (draws s)\<rparr>
      else s\<lparr>entriesQueue := entriesQueue s @ [Deferred r]\<rparr>)"

text \<open>A render of the component: React applies the queued updates, oldest first.\<close>

definition apply_update :: "Platform \<Rightarrow> Update \<Rightarrow> App \<Rightarrow> App" where
  "apply_update pf u s =
     (case u of
        Deferred r \<Rightarrow> run_updater pf r s
      | Computed entry \<Rightarrow> s\<lparr>entries := entries s @ [entry]\<rparr>)"

definition render :: "Platform \<Rightarrow> App \<Rightarrow> App" where
  "render pf s = (fold (apply_update pf) (entriesQueue s) s)\<lparr>entriesQueue := []\<rparr>"

text \<open>Lines 111-130.\<close>

definition handle_turnComplete :: "Platform \<Rightarrow> App \<Rightarrow> App" where
  "handle_turnComplete pf s =
     (let s1 = (if currentInputTranscriptionRef s \<noteq> [] then setEntries pf User s else s);
          s2 = (if currentOutputTranscriptionRef s1 \<noteq> [] then setEntries pf Assistant s1 else s1)
      in s2\<lparr>currentInputTranscriptionRef := [], currentOutputTranscriptionRef := []\<rparr>)"

subsection \<open>The message handler (lines 70-152)\<close>

text \<open>
  The handler suspends once, at \<^verbatim>\<open>await decodeAudioData\<close>, before it has written
  anything; from its resumption to its end it runs without interruption. So one call
  is one step on the state, taken at the clock value \<open>now\<close> of its resumption, and a
  call that raises leaves the state as it was.
\<close>

definition handle_audio :: "Platform \<Rightarrow> real \<Rightarrow> ServerContent \<Rightarrow> App \<Rightarrow> Failure + App" where
  "handle_audio pf now c s =
     (case base64Audio c of
        Inl e \<Rightarrow> Inl e
      | Inr None \<Rightarrow> Inr s
      | Inr (Some b64) \<Rightarrow>
          if b64 = [] then Inr s
          else (case decodeAudioData pf b64 of
                  Inl e \<Rightarrow> Inl e
                | Inr audioBuffer \<Rightarrow> Inr (schedule_chunk now audioBuffer s)))"

definition handle_rest :: "Platform \<Rightarrow> ServerContent \<Rightarrow> App \<Rightarrow> App" where
  "handle_rest pf c s =
     (let s1 = (if interrupted c then handle_interrupted s else s);
          s2 = handle_transcription c s1;
          s3 = (if turnComplete c then handle_turnComplete pf s2 else s2)
      in handle_grounding c s3)"

definition onmessage :: "Platform \<Rightarrow> real \<Rightarrow> LiveServerMessage \<Rightarrow> App \<Rightarrow> Failure + App" where
  "onmessage pf now message s =
     (case serverContent message of
        None \<Rightarrow> Inr s
      | Some c \<Rightarrow>
          (case handle_audio pf now c s of
             Inl e \<Rightarrow> Inl e
           | Inr s1 \<Rightarrow> Inr (handle_rest pf c s1)))"

subsection \<open>Session lifecycle (lines 25-69, 153-161, 271)\<close>

text \<open>The call that a continuation makes on the session of promise \<open>p\<close>.\<close>

definition call_of :: "handle \<Rightarrow> Continuation \<Rightarrow> Effect" where
  "call_of p k =
     (case k of
        CloseSession \<Rightarrow> SessionClose p
      | SendInput frame \<Rightarrow> SendRealtimeInput p frame)"

text \<open>
  \<^verbatim>\<open>promise.then(k)\<close>: on a fulfilled promise the continuation is called, as soon as
  the running code has returned; on a rejected one it is dropped; on a pending one it
  waits.
\<close>

definition promise_then :: "handle \<Rightarrow> Continuation \<Rightarrow> App \<Rightarrow> App" where
  "promise_then p k s =
     (if p \<in> set (fulfilled s) then s\<lparr>effects := effects s @ [call_of p k]\<rparr>
      else if p \<in> set (rejected s) then s
      else s\<lparr>waiting := waiting s @ [(p, k)]\<rparr>)"

text \<open>The promise \<open>p\<close> fulfils: the continuations that wait on it are called, in order.\<close>

definition fulfil :: "handle \<Rightarrow> App \<Rightarrow> App" where
  "fulfil p s =
     s\<lparr>fulfilled := set_add p (fulfilled s),
       waiting := filter (\<lambda>w. fst w \<noteq> p) (waiting s),
       effects := effects s @ map (\<lambda>w. call_of p (snd w)) (filter (\<lambda>w. fst w = p) (waiting s))\<rparr>"

text \<open>The promise \<open>p\<close> rejects: the continuations that wait on it are dropped.\<close>

definition reject :: "handle \<Rightarrow> App \<Rightarrow> App" where
  "reject p s =
     s\<lparr>rejected := set_add p (rejected s),
       waiting := filter (\<lambda>w. fst w \<noteq> p) (waiting s)\<rparr>"

text \<open>
  Lines 25-34. The stream is dropped from the state; no call is made on it. Line 32
  does not close the session: it hands the closing to \<^verbatim>\<open>then\<close> on the promise that
  the ref holds, and line 33 forgets the promise.
\<close>

definition stopSession :: "App \<Rightarrow> App" where
  "stopSession s =
     (let s1 = s\<lparr>isActive := False,
                 audioStream := None,
                 audioSourcesRef := [],
                 effects := effects s
                   @ (case audioContextInRef s of None \<Rightarrow> [] | Some ctx \<Rightarrow> [ContextClose ctx])
                   @ (case audioContextOutRef s of None \<Rightarrow> [] | Some ctx \<Rightarrow> [ContextClose ctx])
                   @ map SourceStop (audioSourcesRef s)\<rparr>;
          s2 = (case sessionPromiseRef s of
                  None \<Rightarrow> s1
                | Some sessionPromise \<Rightarrow> promise_then sessionPromise CloseSession s1)
      in s2\<lparr>sessionPromiseRef := None\<rparr>)"

text \<open>
  Lines 36-180, with the outcome of \<^verbatim>\<open>getUserMedia\<close> as \<open>granted\<close>. The callbacks
  handed to \<^verbatim>\<open>connect\<close> are closures of this call: they keep the \<open>isMuted\<close> of the
  render the call was made from, and the session promise of the call.
\<close>

definition startSession :: "bool \<Rightarrow> App \<Rightarrow> App" where
  "startSession granted s =
     (if \<not> granted
      then s\<lparr>error := Some ''Could not access microphone. Please check permissions.''\<rparr>
      else (let stream = fresh s;
                audioContextIn = fresh s + 1;
                audioContextOut = fresh s + 2;
                sessionPromise = fresh s + 3
            in s\<lparr>error := None,
                 audioStream := Some stream,
                 audioContextInRef := Some audioContextIn,
                 audioContextOutRef := Some audioContextOut,
                 nextStartTimeRef := 0,
                 sessionPromiseRef := Some sessionPromise,
                 isMuted_closure := isMuted s,
                 session_closure := sessionPromise,
                 fresh := fresh s + 4,
                 effects := effects s @
                   [GetUserMedia stream, NewAudioContext audioContextIn 16000,
                    NewAudioContext audioContextOut 24000, Connect sessionPromise]\<rparr>))"

definition onopen :: "App \<Rightarrow> App" where
  "onopen s = s\<lparr>isActive := True\<rparr>"

text \<open>
  The connection has opened: the callback of lines 53-69 runs, and the promise of
  \<^verbatim>\<open>connect\<close> fulfils with the session.
\<close>

definition connection_opened :: "App \<Rightarrow> App" where
  "connection_opened s = fulfil (session_closure s) (onopen s)"

text \<open>
  Lines 57-64, for one captured frame. The sending is handed to \<^verbatim>\<open>then\<close> on the
  session promise of the closure; its effect records the samples handed to
  \<^verbatim>\<open>createBlob\<close>.
\<close>

definition onaudioprocess :: "real list \<Rightarrow> App \<Rightarrow> App" where
  "onaudioprocess inputData s =
     (if isMuted_closure s then s
      else promise_then (session_closure s) (SendInput inputData) s)"

definition onerror :: "App \<Rightarrow> App" where
  "onerror s = stopSession (s\<lparr>error := Some ''Connection error occurred. Please try again.''\<rparr>)"

definition onclose :: "App \<Rightarrow> App" where
  "onclose s = s\<lparr>isActive := False\<rparr>"

text \<open>Line 271, the mute button: \<^verbatim>\<open>setIsMuted(!isMuted)\<close>.\<close>

definition toggleMute :: "App \<Rightarrow> App" where
  "toggleMute s = s\<lparr>isMuted := \<not> isMuted s\<rparr>"

text \<open>What the visualizer is given (line 216).\<close>

definition isListening :: "App \<Rightarrow> bool" where
  "isListening s = (isActive s \<and> \<not> isMuted s)"

subsection \<open>Events\<close>

text \<open>
  Everything that can happen to the component: the three buttons, the four callbacks
  of the transport, the failure of \<^verbatim>\<open>connect\<close>, a captured frame, the end of a
  playing source, and a render. An
  event is a call that the platform makes, so a callback of a session is an event only
  once the session has installed it. A message whose handler raises changes nothing.
\<close>

datatype Event =
    StartSession bool
  | StopSession
  | ToggleMute
  | OnOpen
  | OnMessage real LiveServerMessage
  | OnError
  | OnClose
  | OnAudioProcess "real list"
  | OnEnded handle
  | Render
  | ConnectRejected

definition step :: "Platform \<Rightarrow> Event \<Rightarrow> App \<Rightarrow> App" where
  "step pf e s =
     (case e of
        StartSession granted \<Rightarrow> startSession granted s
      | StopSession \<Rightarrow> stopSession s
      | ToggleMute \<Rightarrow> toggleMute s
      | OnOpen \<Rightarrow> connection_opened s
      | OnMessage now message \<Rightarrow>
          (case onmessage pf now message s of Inl _ \<Rightarrow> s | Inr s' \<Rightarrow> s')
      | OnError \<Rightarrow> onerror s
      | OnClose \<Rightarrow> onclose s
      | OnAudioProcess inputData \<Rightarrow> onaudioprocess inputData s
      | OnEnded source \<Rightarrow> onended source s
      | Render \<Rightarrow> render pf s
      | ConnectRejected \<Rightarrow> reject (session_closure s) s)"

text \<open>A sequence of events, the first of the list first.\<close>

fun run :: "Platform \<Rightarrow> Event list \<Rightarrow> App \<Rightarrow> App" where
  "run pf [] s = s"
| "run pf (e # es) s = run pf es (step pf e s)"

text \<open>The events that reset the cursor: a new session, and an interruption.\<close>

definition resets :: "Event \<Rightarrow> bool" where
  "resets e =
     (case e of
        StartSession granted \<Rightarrow> granted
      | OnMessage now message \<Rightarrow>
          (case serverContent message of None \<Rightarrow> False | Some c \<Rightarrow> interrupted c)
      | _ \<Rightarrow> False)"

definition initial :: App where
  "initial =
     \<lparr>isActive = False, isMuted = False, entries = [], groundingSources = [],
      audioStream = None, error = None, nextStartTimeRef = 0,
      audioContextOutRef = None, audioContextInRef = None, audioSourcesRef = [],
      sessionPromiseRef = None, currentInputTranscriptionRef = [],
      currentOutputTranscriptionRef = [], entriesQueue = [], isMuted_closure = False,
      session_closure = 0, fulfilled = [], rejected = [], waiting = [], draws = 0,
      fresh = 0, effects = []\<rparr>"

subsection \<open>Observations on runs\<close>

text \<open>Chunks scheduled one after the other, each with the clock value of its call.\<close>

fun schedule_all :: "(real \<times> AudioBuffer) list \<Rightarrow> App \<Rightarrow> App" where
  "schedule_all [] s = s"
| "schedule_all ((now, audioBuffer) # chunks) s =
     schedule_all chunks (schedule_chunk now audioBuffer s)"

text \<open>The times handed to \<^verbatim>\<open>source.start\<close>, in call order.\<close>

fun start_times :: "Effect list \<Rightarrow> real list" where
  "start_times [] = []"
| "start_times (SourceStart h t # es) = t # start_times es"
| "start_times (_ # es) = start_times es"

text \<open>
  The same times computed from the cursor alone: each chunk starts at the larger of the
  cursor and its clock value, and moves the cursor to its end.
\<close>

fun starts_from :: "real \<Rightarrow> (real \<times> AudioBuffer) list \<Rightarrow> real list" where
  "starts_from cursor [] = []"
| "starts_from cursor ((now, audioBuffer) # chunks) =
     max cursor now # starts_from (max cursor now + duration audioBuffer) chunks"

definition scheduled_starts :: "(real \<times> AudioBuffer) list \<Rightarrow> App \<Rightarrow> real list" where
  "scheduled_starts chunks s =
     drop (length (start_times (effects s))) (start_times (effects (schedule_all chunks s)))"

text \<open>The effects a step adds.\<close>

definition added :: "App \<Rightarrow> App \<Rightarrow> Effect list" where
  "added s s' = drop (length (effects s)) (effects s')"

text \<open>Every microphone that was acquired has had its track stopped.\<close>

definition mic_released :: "Effect list \<Rightarrow> bool" where
  "mic_released es =
     list_all (\<lambda>e. case e of GetUserMedia h \<Rightarrow> TrackStop h \<in> set es | _ \<Rightarrow> True) es"

section \<open>The PCM codec\<close>

text \<open>
  Modelled from the spec: the codec of section 4.1 of the specification. The
  controller imports it from the module \<^verbatim>\<open>utils\<close>, which is not among the sources.
  A sample is clamped to the interval from -1 to 1.
\<close>

definition clamp_sample :: "real \<Rightarrow> real" where
  "clamp_sample x = max (- 1) (min 1 x)"

text \<open>
  Modelled from the spec: the clamped sample is scaled to the signed 16-bit range, that
  is multiplied by \<open>2 ^ 15\<close>, rounded down and kept within -32768 and 32767.
\<close>

definition to_int16 :: "real \<Rightarrow> 16 word" where
  "to_int16 x = word_of_int (max (- 32768) (min 32767 \<lfloor>clamp_sample x * 32768\<rfloor>))"

text \<open>Modelled from the spec: a 16-bit sample is serialized as two bytes, low byte first.\<close>

definition int16_bytes :: "16 word \<Rightarrow> 8 word list" where
  "int16_bytes w = [ucast w, ucast (drop_bit 8 w)]"

text \<open>Modelled from the spec: \<^verbatim>\<open>encodeFrame\<close>, up to the byte sequence.\<close>

definition encodeFrame :: "real list \<Rightarrow> 8 word list" where
  "encodeFrame samples = concat (map (\<lambda>x. int16_bytes (to_int16 x)) samples)"

text \<open>Modelled from the spec: the bytes read as 16-bit PCM, two bytes a sample.\<close>

fun bytes_int16 :: "8 word list \<Rightarrow> 16 word list" where
  "bytes_int16 (lo # hi # bytes) = (push_bit 8 (ucast hi) OR ucast lo) # bytes_int16 bytes"
| "bytes_int16 _ = []"

text \<open>Modelled from the spec: a 16-bit sample rescaled to a number from -1 to 1.\<close>

definition from_int16 :: "16 word \<Rightarrow> real" where
  "from_int16 w = real_of_int (sint w) / 32768"

text \<open>Modelled from the spec: the playable buffer, one list of samples for each channel.\<close>

record PlayableAudioBuffer =
  buffer_sampleRate :: nat
  channelData :: "real list list"

text \<open>Modelled from the spec: channel \<open>c\<close> of \<open>n\<close> interleaved channels.\<close>

definition channel_of :: "nat \<Rightarrow> nat \<Rightarrow> real list \<Rightarrow> real list" where
  "channel_of n c xs = map (\<lambda>i. xs ! (i * n + c)) [0 ..< length xs div n]"

text \<open>
  Modelled from the spec: \<^verbatim>\<open>decodeToBuffer\<close>, which fails when the byte length is
  not a whole number of samples.
\<close>

definition decodeToBuffer :: "8 word list \<Rightarrow> nat \<Rightarrow> nat \<Rightarrow> Failure + PlayableAudioBuffer" where
  "decodeToBuffer bytes targetSampleRate channelCount =
     (if length bytes mod 2 \<noteq> 0 then Inl DecodeError
      else (let samples = map from_int16 (bytes_int16 bytes)
            in Inr \<lparr>buffer_sampleRate = targetSampleRate,
                    channelData = map (\<lambda>c. channel_of channelCount c samples)
                                      [0 ..< channelCount]\<rparr>))"

section \<open>Example values\<close>

text \<open>
  Three platforms that differ in how React flushes, an empty server content, messages
  with one field, a buffer of half a second, and a session that is active with one
  source playing.
\<close>

definition batched :: Platform where
  "batched =
     \<lparr>random = (\<lambda>k. ''0.'' @ replicate (Suc k) (CHR ''z'')),
      newDate = (\<lambda>k. 1000 + k),
      decodeAudioData = (\<lambda>b64. Inr \<lparr>sampleRate = 24000, length_buffer = 12000\<rparr>),
      syncFlush = False,
      eagerState = False\<rparr>"

definition batched_eager :: Platform where
  "batched_eager = batched\<lparr>eagerState := True\<rparr>"

definition legacy :: Platform where
  "legacy = batched\<lparr>syncFlush := True\<rparr>"

definition no_content :: ServerContent where
  "no_content =
     \<lparr>modelTurn = None, interrupted = False, inputTranscription = None,
      outputTranscription = None, turnComplete = False, groundingChunks = None\<rparr>"

definition audio_turn :: Content where
  "audio_turn = \<lparr>parts = Some [\<lparr>inlineData = Some \<lparr>data = Some ''UklGRg==''\<rparr>\<rparr>]\<rparr>"

definition said :: "Role \<Rightarrow> string \<Rightarrow> LiveServerMessage" where
  "said r fragment =
     (case r of
        User \<Rightarrow> \<lparr>serverContent = Some (no_content
                  \<lparr>inputTranscription := Some \<lparr>text_transcription = Some fragment\<rparr>\<rparr>)\<rparr>
      | Assistant \<Rightarrow> \<lparr>serverContent = Some (no_content
                  \<lparr>outputTranscription := Some \<lparr>text_transcription = Some fragment\<rparr>\<rparr>)\<rparr>)"

definition turn_completed :: LiveServerMessage where
  "turn_completed = \<lparr>serverContent = Some (no_content\<lparr>turnComplete := True\<rparr>)\<rparr>"

definition half_second :: AudioBuffer where
  "half_second = \<lparr>sampleRate = 24000, length_buffer = 12000\<rparr>"

definition playing :: App where
  "playing = schedule_chunk 0 half_second (connection_opened (startSession True initial))"

section \<open>Properties of the containers\<close>

lemma map_fst_map_set:
  "map fst (map_set k v m) = (if k \<in> fst ` set m then map fst m else map fst m @ [k])"
  by (induction m) (auto simp: rev_image_eqI)

lemma keys_map_set: "fst ` set (map_set k v m) = insert k (fst ` set m)"
proof -
  have "set (map fst (map_set k v m)) = insert k (set (map fst m))"
    unfolding map_fst_map_set by auto
  then show ?thesis by simp
qed

lemma map_set_new: "k \<notin> fst ` set m \<Longrightarrow> map_set k v m = m @ [(k, v)]"
  by (induction m) auto

lemma map_of_map_set: "map_of (map_set k v m) = (map_of m)(k \<mapsto> v)"
  by (induction m) (auto simp: fun_eq_iff)

lemma set_map_set: "set (map_set k v m) \<subseteq> insert (k, v) (set m)"
  by (induction m) (auto split: if_splits)

lemma distinct_map_set:
  "distinct (map fst m) \<Longrightarrow> distinct (map fst (map_set k v m))"
  by (simp add: map_fst_map_set)

lemma distinct_map_set_all:
  "distinct (map fst m) \<Longrightarrow> distinct (map fst (map_set_all es m))"
  by (induction es m rule: map_set_all.induct) (simp_all add: distinct_map_set)

text \<open>The entries set last win: the map looks up like the reversed entry list.\<close>

lemma map_of_map_set_all: "map_of (map_set_all es m) = map_of m ++ map_of (rev es)"
proof (induction es m rule: map_set_all.induct)
  case (2 k v es m)
  have "map_of (map_set k v m) ++ map_of (rev es)
      = map_of m ++ (map_of [(k, v)] ++ map_of (rev es))"
    unfolding map_of_map_set by (auto simp: fun_eq_iff map_add_def split: option.splits)
  with 2 show ?case by simp
qed simp

lemma set_map_set_all: "set (map_set_all es m) \<subseteq> set es \<union> set m"
proof (induction es m rule: map_set_all.induct)
  case (2 k v es m)
  then show ?case using set_map_set [of k v m] by auto
qed simp

lemma keys_map_set_all: "fst ` set (map_set_all es m) = fst ` set es \<union> fst ` set m"
  by (induction es m rule: map_set_all.induct) (auto simp: keys_map_set)

lemma map_set_all_append: "map_set_all (a @ b) m = map_set_all b (map_set_all a m)"
  by (induction a m rule: map_set_all.induct) simp_all

lemma remdups_drop_earlier: "k \<in> set ys \<Longrightarrow> remdups (xs @ k # ys) = remdups (xs @ ys)"
  by (induction xs) auto

text \<open>The keys stand in the order of their first occurrence.\<close>

lemma map_fst_map_set_all:
  "distinct (map fst m) \<Longrightarrow>
   map fst (map_set_all es m) = rev (remdups (rev (map fst m @ map fst es)))"
proof (induction es m rule: map_set_all.induct)
  case (1 m)
  then show ?case by (simp add: distinct_remdups_id)
next
  case (2 k v es m)
  then show ?case
    by (auto simp: map_fst_map_set remdups_drop_earlier)
qed

lemma map_set_all_stable_keys:
  "fst ` set es \<subseteq> fst ` set m \<Longrightarrow> map fst (map_set_all es m) = map fst m"
proof (induction es m rule: map_set_all.induct)
  case (2 k v es m)
  then have k: "k \<in> fst ` set m" by auto
  with 2 have "map fst (map_set_all es (map_set k v m)) = map fst (map_set k v m)"
    by (auto simp: keys_map_set)
  with k show ?case by (simp add: map_fst_map_set)
qed simp

lemma map_set_all_prefix: "take (length m) (map fst (map_set_all es m)) = map fst m"
proof (induction es m rule: map_set_all.induct)
  case (2 k v es m)
  have "take (length m) (map fst (map_set_all es (map_set k v m)))
      = take (length m) (take (length (map_set k v m)) (map fst (map_set_all es (map_set k v m))))"
    using arg_cong [OF map_fst_map_set [of k v m], of length] by (simp add: min_def)
  also have "\<dots> = take (length m) (map fst (map_set k v m))"
    by (simp only: 2)
  also have "\<dots> = map fst m"
    by (simp add: map_fst_map_set)
  finally show ?case by simp
qed simp

text \<open>Two maps with the same keys in the same order and the same lookups are equal.\<close>

lemma assoc_eqI:
  "map fst a = map fst b \<Longrightarrow> distinct (map fst a) \<Longrightarrow> map_of a = map_of b \<Longrightarrow> a = b"
proof (induction a arbitrary: b)
  case Nil
  then show ?case by simp
next
  case (Cons x a)
  then obtain y b' where b: "b = y # b'" by (cases b) auto
  with Cons.prems have k: "fst x = fst y" and ks: "map fst a = map fst b'" by auto
  have pt: "map_of (x # a) z = map_of b z" for z
    using Cons.prems(3) by (rule fun_cong)
  from pt [of "fst x"] b k have xy: "x = y" by (cases x, cases y) simp
  have "map_of a = map_of b'"
  proof
    fix z
    show "map_of a z = map_of b' z"
    proof (cases "z = fst x")
      case True
      from Cons.prems(2) have "fst x \<notin> set (map fst a)" by simp
      moreover from this ks have "fst x \<notin> set (map fst b')" by simp
      ultimately have "map_of a z = None" "map_of b' z = None"
        using True by (simp_all add: map_of_eq_None_iff)
      then show ?thesis by simp
    next
      case False
      from pt [of z] b xy False show ?thesis by (cases x) (simp split: if_splits)
    qed
  qed
  with Cons.IH [OF ks] Cons.prems(2) xy b show ?case by simp
qed

lemma map_set_all_rebuild:
  "distinct (map fst (m0 @ m)) \<Longrightarrow> map_set_all m m0 = m0 @ m"
proof (induction m m0 rule: map_set_all.induct)
  case (2 k v es m)
  then have "map_set k v m = m @ [(k, v)]"
    by (intro map_set_new) auto
  with 2 show ?case by simp
qed simp

lemma map_set_all_again:
  assumes "distinct (map fst m)"
  shows "map_set_all es (map_set_all es m) = map_set_all es m"
proof (rule assoc_eqI)
  show "map fst (map_set_all es (map_set_all es m)) = map fst (map_set_all es m)"
    by (rule map_set_all_stable_keys) (simp add: keys_map_set_all)
  show "distinct (map fst (map_set_all es (map_set_all es m)))"
    by (intro distinct_map_set_all assms)
  show "map_of (map_set_all es (map_set_all es m)) = map_of (map_set_all es m)"
    unfolding map_of_map_set_all
    by (auto simp: fun_eq_iff map_add_def split: option.splits)
qed

section \<open>Citations\<close>

lemma new_Map_keyed:
  assumes "e \<in> set (new_Map (map (\<lambda>s. (uri s, s)) C))"
  shows "fst e = uri (snd e)" and "snd e \<in> set C"
  using assms set_map_set_all [of "map (\<lambda>s. (uri s, s)) C" "[]"]
  by (auto simp: new_Map_def)

lemma new_Map_distinct: "distinct (map fst (new_Map es))"
  by (simp add: new_Map_def distinct_map_set_all)

lemma rekey_keyed:
  "(\<And>e. e \<in> set M \<Longrightarrow> fst e = uri (snd e)) \<Longrightarrow> map (\<lambda>s. (uri s, s)) (map snd M) = M"
  by (induction M) (auto simp: prod_eq_iff)

lemma rekey_new_Map:
  "map (\<lambda>s. (uri s, s)) (map snd (new_Map (map (\<lambda>s. (uri s, s)) C))) =
   new_Map (map (\<lambda>s. (uri s, s)) C)"
  by (rule rekey_keyed) (rule new_Map_keyed(1))

lemma merge_sources_twice:
  "merge_sources n (merge_sources n p) = merge_sources n p"
proof -
  let ?kv = "map (\<lambda>s. (uri s, s))"
  let ?Mp = "new_Map (?kv p)"
  let ?M = "new_Map (?kv (p @ n))"
  have M: "?M = map_set_all (?kv n) ?Mp"
    by (simp add: new_Map_def map_set_all_append)
  have "new_Map (?kv (map snd ?M @ n)) = map_set_all (?kv n) (map_set_all (?kv (map snd ?M)) [])"
    by (simp add: new_Map_def map_set_all_append)
  also have "?kv (map snd ?M) = ?M"
    by (rule rekey_new_Map)
  also have "map_set_all ?M [] = ?M"
    using map_set_all_rebuild [of "[]" ?M] new_Map_distinct [of "?kv (p @ n)"] by simp
  also have "map_set_all (?kv n) ?M = ?M"
    unfolding M by (rule map_set_all_again) (rule new_Map_distinct)
  finally show ?thesis
    by (simp add: merge_sources_def map_values_def)
qed

lemma handle_grounding_twice:
  "handle_grounding c (handle_grounding c s) = handle_grounding c s"
  by (simp add: handle_grounding_def Let_def merge_sources_twice split: option.splits)

lemma map_of_last_occurrence:
  "map_of (rev (map (\<lambda>s. (uri s, s)) C)) k = Some e \<Longrightarrow>
   last (filter (\<lambda>s. uri s = k) C) = e"
  by (induction C rule: rev_induct) (auto split: if_splits)

lemma merge_sources_content:
  assumes "e \<in> set (merge_sources n p)"
  shows "last (filter (\<lambda>s. uri s = uri e) (p @ n)) = e"
proof -
  let ?kv = "map (\<lambda>s. (uri s, s))"
  let ?M = "new_Map (?kv (p @ n))"
  from assms obtain x where x: "x \<in> set ?M" and e: "snd x = e"
    by (auto simp: merge_sources_def map_values_def)
  with new_Map_keyed(1) [OF x] have "(uri e, e) \<in> set ?M" by (cases x) auto
  then have "map_of ?M (uri e) = Some e"
    by (simp only: map_of_eq_Some_iff [OF new_Map_distinct])
  then have "map_of (rev (?kv (p @ n))) (uri e) = Some e"
    by (simp add: new_Map_def map_of_map_set_all del: map_append rev_append)
  then show ?thesis by (rule map_of_last_occurrence)
qed

lemma merge_sources_subset: "set (merge_sources n p) \<subseteq> set (p @ n)"
  using new_Map_keyed(2) [of _ "p @ n"]
  by (auto simp: merge_sources_def map_values_def simp del: map_append)

lemma merge_sources_keys:
  "map uri (merge_sources n p) = map fst (new_Map (map (\<lambda>s. (uri s, s)) (p @ n)))"
proof -
  have "map uri (map snd M) = map fst M"
    if "\<And>e. e \<in> set M \<Longrightarrow> fst e = uri (snd e)" for M :: "(string \<times> GroundingSource) list"
    using that by (induction M) auto
  from this [OF new_Map_keyed(1)] show ?thesis
    by (simp add: merge_sources_def map_values_def del: map_append)
qed

lemma merge_sources_uris:
  "map uri (merge_sources n p) = rev (remdups (rev (map uri (p @ n))))"
proof -
  let ?kv = "map (\<lambda>s. (uri s, s))"
  have "map fst (new_Map (?kv (p @ n))) = rev (remdups (rev (map fst (?kv (p @ n)))))"
    using map_fst_map_set_all [of "[]" "?kv (p @ n)"] by (simp add: new_Map_def del: map_append)
  also have "map fst (?kv (p @ n)) = map uri (p @ n)" by (simp add: comp_def)
  finally show ?thesis by (simp only: merge_sources_keys)
qed

lemma merge_sources_prefix:
  assumes "distinct (map uri prev)"
  shows "take (length prev) (map uri (merge_sources newSources prev)) = map uri prev"
proof -
  let ?kv = "map (\<lambda>s. (uri s, s))"
  have "map fst (?kv prev) = map uri prev" by (simp add: comp_def)
  with assms have "distinct (map fst ([] @ ?kv prev))" by (simp add: comp_def)
  then have "map_set_all (?kv prev) [] = [] @ ?kv prev"
    by (rule map_set_all_rebuild)
  then have "new_Map (?kv (prev @ newSources)) = map_set_all (?kv newSources) (?kv prev)"
    by (simp add: new_Map_def map_set_all_append)
  then show ?thesis
    using map_set_all_prefix [of "?kv prev" "?kv newSources"]
    by (simp add: merge_sources_keys comp_def del: map_append)
qed

lemma merge_sources_distinct: "distinct (map uri (merge_sources n p))"
  unfolding merge_sources_keys by (rule new_Map_distinct)

lemma merge_sources_uri_set:
  "set (map uri (merge_sources n p)) = set (map uri (p @ n))"
  unfolding merge_sources_uris by auto

text \<open>
  C8. Merging the same source list twice in succession gives the sequence that merging
  it once gives, for the updater and for the whole grounding branch of the handler.
  Merging the sources A titled X and B titled Y twice gives the two entries that one
  merge gives, and a later merge of A titled Z changes the title of A to Z, without a
  second entry for A and without removing B.
\<close>

theorem citation_merge_idempotent:
  "merge_sources newSources (merge_sources newSources prev) = merge_sources newSources prev
   \<and> handle_grounding c (handle_grounding c s) = handle_grounding c s
   \<and> merge_sources [\<lparr>title = ''X'', uri = ''A''\<rparr>, \<lparr>title = ''Y'', uri = ''B''\<rparr>] []
       = [\<lparr>title = ''X'', uri = ''A''\<rparr>, \<lparr>title = ''Y'', uri = ''B''\<rparr>]
   \<and> merge_sources [\<lparr>title = ''X'', uri = ''A''\<rparr>, \<lparr>title = ''Y'', uri = ''B''\<rparr>]
         [\<lparr>title = ''X'', uri = ''A''\<rparr>, \<lparr>title = ''Y'', uri = ''B''\<rparr>]
       = [\<lparr>title = ''X'', uri = ''A''\<rparr>, \<lparr>title = ''Y'', uri = ''B''\<rparr>]
   \<and> merge_sources [\<lparr>title = ''Z'', uri = ''A''\<rparr>]
         [\<lparr>title = ''X'', uri = ''A''\<rparr>, \<lparr>title = ''Y'', uri = ''B''\<rparr>]
       = [\<lparr>title = ''Z'', uri = ''A''\<rparr>, \<lparr>title = ''Y'', uri = ''B''\<rparr>]"
  by (simp add: merge_sources_twice handle_grounding_twice)
     (simp add: merge_sources_def new_Map_def map_values_def)

text \<open>
  C7, as stated, fails: when the URI A, first in the sequence, comes again with the
  title Z, its entry takes the title Z and stays first; it does not move behind B.
\<close>

theorem citation_position_counterexample:
  "merge_sources [\<lparr>title = ''Z'', uri = ''A''\<rparr>]
     [\<lparr>title = ''X'', uri = ''A''\<rparr>, \<lparr>title = ''Y'', uri = ''B''\<rparr>]
   = [\<lparr>title = ''Z'', uri = ''A''\<rparr>, \<lparr>title = ''Y'', uri = ''B''\<rparr>]
   \<and> merge_sources [\<lparr>title = ''Z'', uri = ''A''\<rparr>]
     [\<lparr>title = ''X'', uri = ''A''\<rparr>, \<lparr>title = ''Y'', uri = ''B''\<rparr>]
   \<noteq> [\<lparr>title = ''Y'', uri = ''B''\<rparr>, \<lparr>title = ''Z'', uri = ''A''\<rparr>]"
  by (simp add: merge_sources_def new_Map_def map_values_def)

text \<open>
  C7, amended. The merged sequence has exactly one entry for each distinct URI of the
  previous sequence followed by the new sources; the URIs stand in the order of their
  first occurrence there, so that the URIs of a duplicate-free previous sequence keep
  their positions; and each entry is the last source with its URI, so that a URI that
  comes again with another title takes the later title.
\<close>

theorem citation_position_first_occurrence:
  "distinct (map uri (merge_sources newSources prev))
   \<and> set (map uri (merge_sources newSources prev)) = set (map uri (prev @ newSources))
   \<and> map uri (merge_sources newSources prev) = rev (remdups (rev (map uri (prev @ newSources))))
   \<and> (distinct (map uri prev) \<longrightarrow>
        take (length prev) (map uri (merge_sources newSources prev)) = map uri prev)
   \<and> (\<forall>e \<in> set (merge_sources newSources prev).
        last (filter (\<lambda>s. uri s = uri e) (prev @ newSources)) = e)"
  using merge_sources_distinct [of newSources prev] merge_sources_uri_set [of newSources prev]
    merge_sources_uris [of newSources prev] merge_sources_prefix [of prev newSources]
    merge_sources_content [of _ newSources prev]
  by blast

text \<open>
  C7, amended, at the previous sequence A titled X, B titled Y and the new source A
  titled Z: the two URIs keep their positions and A has the later title.
\<close>

theorem citation_position_first_occurrence_witness:
  "distinct (map uri [\<lparr>title = ''X'', uri = ''A''\<rparr>, \<lparr>title = ''Y'', uri = ''B''\<rparr>])
   \<and> take 2 (map uri (merge_sources [\<lparr>title = ''Z'', uri = ''A''\<rparr>]
         [\<lparr>title = ''X'', uri = ''A''\<rparr>, \<lparr>title = ''Y'', uri = ''B''\<rparr>])) = [''A'', ''B'']
   \<and> \<lparr>title = ''Z'', uri = ''A''\<rparr> \<in> set (merge_sources [\<lparr>title = ''Z'', uri = ''A''\<rparr>]
         [\<lparr>title = ''X'', uri = ''A''\<rparr>, \<lparr>title = ''Y'', uri = ''B''\<rparr>])
   \<and> last (filter (\<lambda>s. uri s = ''A'')
         ([\<lparr>title = ''X'', uri = ''A''\<rparr>, \<lparr>title = ''Y'', uri = ''B''\<rparr>]
          @ [\<lparr>title = ''Z'', uri = ''A''\<rparr>])) = \<lparr>title = ''Z'', uri = ''A''\<rparr>"
proof -
  let ?prev = "[\<lparr>title = ''X'', uri = ''A''\<rparr>, \<lparr>title = ''Y'', uri = ''B''\<rparr>]"
  let ?new = "[\<lparr>title = ''Z'', uri = ''A''\<rparr>]"
  have d: "distinct (map uri ?prev)" by simp
  have m: "\<lparr>title = ''Z'', uri = ''A''\<rparr> \<in> set (merge_sources ?new ?prev)"
    by (simp add: merge_sources_def new_Map_def map_values_def)
  note t = citation_position_first_occurrence [of ?new ?prev]
  from t d have "take (length ?prev) (map uri (merge_sources ?new ?prev)) = map uri ?prev"
    by blast
  moreover from t m have "last (filter (\<lambda>s. uri s = uri \<lparr>title = ''Z'', uri = ''A''\<rparr>)
      (?prev @ ?new)) = \<lparr>title = ''Z'', uri = ''A''\<rparr>"
    by blast
  ultimately show ?thesis using d m by (simp add: numeral_2_eq_2)
qed

section \<open>What the handlers leave alone\<close>

lemma duration_nonneg: "0 \<le> duration b"
  by (simp add: duration_def)

lemma set_set_add: "set (set_add x xs) = insert x (set xs)"
  by (auto simp: set_add_def)

lemma added_append: "effects s' = effects s @ es \<Longrightarrow> added s s' = es"
  by (simp add: added_def)

lemma schedule_chunk_simps:
  "effects (schedule_chunk now b s) =
     effects s @ [SourceStart (fresh s) (max (nextStartTimeRef s) now)]"
  "nextStartTimeRef (schedule_chunk now b s) = max (nextStartTimeRef s) now + duration b"
  "audioSourcesRef (schedule_chunk now b s) = set_add (fresh s) (audioSourcesRef s)"
  "fresh (schedule_chunk now b s) = Suc (fresh s)"
  "groundingSources (schedule_chunk now b s) = groundingSources s"
  by (simp_all add: schedule_chunk_def Let_def)

lemma setEntries_keeps:
  "nextStartTimeRef (setEntries pf r s) = nextStartTimeRef s"
  "groundingSources (setEntries pf r s) = groundingSources s"
  "audioSourcesRef (setEntries pf r s) = audioSourcesRef s"
  "effects (setEntries pf r s) = effects s"
  "fresh (setEntries pf r s) = fresh s"
  "currentInputTranscriptionRef (setEntries pf r s) = currentInputTranscriptionRef s"
  "currentOutputTranscriptionRef (setEntries pf r s) = currentOutputTranscriptionRef s"
  by (simp_all add: setEntries_def run_updater_def)

lemma handle_turnComplete_keeps:
  "nextStartTimeRef (handle_turnComplete pf s) = nextStartTimeRef s"
  "groundingSources (handle_turnComplete pf s) = groundingSources s"
  "audioSourcesRef (handle_turnComplete pf s) = audioSourcesRef s"
  "effects (handle_turnComplete pf s) = effects s"
  "fresh (handle_turnComplete pf s) = fresh s"
  by (simp_all add: handle_turnComplete_def Let_def setEntries_keeps)

lemma handle_transcription_keeps:
  "nextStartTimeRef (handle_transcription c s) = nextStartTimeRef s"
  "groundingSources (handle_transcription c s) = groundingSources s"
  "audioSourcesRef (handle_transcription c s) = audioSourcesRef s"
  "effects (handle_transcription c s) = effects s"
  "fresh (handle_transcription c s) = fresh s"
  by (simp_all add: handle_transcription_def Let_def split: option.splits)

lemma handle_grounding_keeps:
  "nextStartTimeRef (handle_grounding c s) = nextStartTimeRef s"
  "audioSourcesRef (handle_grounding c s) = audioSourcesRef s"
  "effects (handle_grounding c s) = effects s"
  "fresh (handle_grounding c s) = fresh s"
  by (simp_all add: handle_grounding_def Let_def split: option.splits)

lemma handle_interrupted_simps:
  "nextStartTimeRef (handle_interrupted s) = 0"
  "audioSourcesRef (handle_interrupted s) = []"
  "effects (handle_interrupted s) = effects s @ map SourceStop (audioSourcesRef s)"
  "groundingSources (handle_interrupted s) = groundingSources s"
  "fresh (handle_interrupted s) = fresh s"
  by (simp_all add: handle_interrupted_def)

lemma handle_rest_playback:
  "nextStartTimeRef (handle_rest pf c s) = (if interrupted c then 0 else nextStartTimeRef s)"
  "audioSourcesRef (handle_rest pf c s) = (if interrupted c then [] else audioSourcesRef s)"
  "effects (handle_rest pf c s) =
     (if interrupted c then effects s @ map SourceStop (audioSourcesRef s) else effects s)"
  "fresh (handle_rest pf c s) = fresh s"
  by (simp_all add: handle_rest_def Let_def handle_grounding_keeps handle_turnComplete_keeps
        handle_transcription_keeps handle_interrupted_simps)

lemma handle_audio_cases:
  assumes "handle_audio pf now c s = Inr s1"
  obtains "s1 = s" | b where "s1 = schedule_chunk now b s"
  using assms
  by (auto simp: handle_audio_def split: sum.splits option.splits if_splits)

lemma onmessage_Some:
  assumes "onmessage pf now message s = Inr s'" and "serverContent message = Some c"
  obtains s1 where "handle_audio pf now c s = Inr s1" and "s' = handle_rest pf c s1"
  using assms by (auto simp: onmessage_def split: sum.splits)

section \<open>Grounding chunks\<close>

lemma collect_sources_eq:
  "collect_sources chunks acc =
   acc @ map (\<lambda>w. \<lparr>title = title_or_default (web_title w), uri = web_uri w\<rparr>)
             (List.map_filter web chunks)"
  by (induction chunks acc rule: collect_sources.induct)
     (simp_all add: map_filter_simps split: option.splits)

lemma groundingSources_handle_grounding:
  "groundingSources (handle_grounding c s) =
     (case groundingChunks c of
        None \<Rightarrow> groundingSources s
      | Some chunks \<Rightarrow>
          if collect_sources chunks [] = [] then groundingSources s
          else merge_sources (collect_sources chunks []) (groundingSources s))"
  by (simp add: handle_grounding_def Let_def split: option.splits)

lemma groundingSources_handle_audio:
  "handle_audio pf now c s = Inr s1 \<Longrightarrow> groundingSources s1 = groundingSources s"
  by (erule handle_audio_cases) (simp_all add: schedule_chunk_simps)

lemma groundingSources_handle_rest:
  "groundingSources (handle_rest pf c s) = groundingSources (handle_grounding c s)"
  by (simp add: handle_rest_def Let_def groundingSources_handle_grounding
      handle_turnComplete_keeps handle_transcription_keeps handle_interrupted_simps
      split: option.splits)

text \<open>
  C10. For a message whose handler returns and that carries grounding chunks: the
  citation sequence is unchanged when no chunk has a web field, and is otherwise the
  merge of the records of the web chunks, in their order; every entry of the new
  sequence is an entry of the old one or the record of a web chunk, and every web chunk
  has an entry with its URI; the record of a web chunk has the URI of the chunk, and
  the title `Untitled Source' when the title of the chunk is missing or empty, the
  title of the chunk otherwise.
\<close>

theorem grounding_chunk_filter:
  assumes "onmessage pf now message s = Inr s'"
    and "serverContent message = Some c"
    and "groundingChunks c = Some chunks"
  shows "groundingSources s' =
           (if List.map_filter web chunks = [] then groundingSources s
            else merge_sources
                   (map (\<lambda>w. \<lparr>title = title_or_default (web_title w), uri = web_uri w\<rparr>)
                        (List.map_filter web chunks))
                   (groundingSources s))
       \<and> set (groundingSources s') \<subseteq>
           set (groundingSources s)
           \<union> (\<lambda>w. \<lparr>title = title_or_default (web_title w), uri = web_uri w\<rparr>)
               ` set (List.map_filter web chunks)
       \<and> web_uri ` set (List.map_filter web chunks) \<subseteq> uri ` set (groundingSources s')
       \<and> title_or_default None = ''Untitled Source''
       \<and> title_or_default (Some []) = ''Untitled Source''
       \<and> (t \<noteq> [] \<longrightarrow> title_or_default (Some t) = t)"
proof -
  let ?rec = "\<lambda>w. \<lparr>title = title_or_default (web_title w), uri = web_uri w\<rparr>"
  let ?webs = "List.map_filter web chunks"
  from assms(1,2) obtain s1 where s1: "handle_audio pf now c s = Inr s1"
    and s': "s' = handle_rest pf c s1"
    by (rule onmessage_Some)
  have n: "collect_sources chunks [] = map ?rec ?webs"
    by (simp add: collect_sources_eq)
  from s' have g: "groundingSources s' =
      (if ?webs = [] then groundingSources s else merge_sources (map ?rec ?webs) (groundingSources s))"
    by (simp add: groundingSources_handle_rest groundingSources_handle_grounding assms(3) n
        groundingSources_handle_audio [OF s1])
  have sub: "set (groundingSources s') \<subseteq> set (groundingSources s) \<union> ?rec ` set ?webs"
    unfolding g using merge_sources_subset [of "map ?rec ?webs" "groundingSources s"] by auto
  have "web_uri ` set ?webs \<subseteq> uri ` set (groundingSources s')"
  proof (cases "?webs = []")
    case True
    then show ?thesis by simp
  next
    case False
    have "web_uri ` set ?webs \<subseteq> set (map uri (groundingSources s @ map ?rec ?webs))"
      by (auto simp: image_iff)
    with False show ?thesis
      unfolding g using merge_sources_uri_set [of "map ?rec ?webs" "groundingSources s"]
      by (simp del: map_append set_append)
  qed
  with g sub show ?thesis by (simp add: title_or_default_def)
qed

text \<open>
  C10 at a message with one chunk without a web field and one web chunk without a
  title, received in the initial state.
\<close>

theorem grounding_chunk_filter_witness:
  "onmessage batched 0
     \<lparr>serverContent = Some (no_content\<lparr>groundingChunks :=
        Some [\<lparr>web = None\<rparr>, \<lparr>web = Some \<lparr>web_title = None, web_uri = ''https://a.example''\<rparr>\<rparr>]\<rparr>)\<rparr>
     initial
   = Inr (initial\<lparr>groundingSources := [\<lparr>title = ''Untitled Source'', uri = ''https://a.example''\<rparr>]\<rparr>)
   \<and> set [\<lparr>title = ''Untitled Source'', uri = ''https://a.example''\<rparr>]
       \<subseteq> set (groundingSources initial)
         \<union> (\<lambda>w. \<lparr>title = title_or_default (web_title w), uri = web_uri w\<rparr>)
           ` set (List.map_filter web
               [\<lparr>web = None\<rparr>, \<lparr>web = Some \<lparr>web_title = None, web_uri = ''https://a.example''\<rparr>\<rparr>])"
proof -
  let ?chunks = "[\<lparr>web = None\<rparr>, \<lparr>web = Some \<lparr>web_title = None, web_uri = ''https://a.example''\<rparr>\<rparr>]"
  let ?c = "no_content\<lparr>groundingChunks := Some ?chunks\<rparr>"
  let ?s' = "initial\<lparr>groundingSources := [\<lparr>title = ''Untitled Source'', uri = ''https://a.example''\<rparr>]\<rparr>"
  have h1: "onmessage batched 0 \<lparr>serverContent = Some ?c\<rparr> initial = Inr ?s'"
    by (simp add: onmessage_def handle_audio_def base64Audio_def handle_rest_def
        handle_transcription_def handle_grounding_def no_content_def title_or_default_def
        merge_sources_def new_Map_def map_values_def initial_def)
  have h2: "serverContent \<lparr>serverContent = Some ?c\<rparr> = Some ?c" by simp
  have h3: "groundingChunks ?c = Some ?chunks" by simp
  from grounding_chunk_filter [OF h1 h2 h3, of "''T''"]
  have "set (groundingSources ?s') \<subseteq> set (groundingSources initial)
         \<union> (\<lambda>w. \<lparr>title = title_or_default (web_title w), uri = web_uri w\<rparr>)
           ` set (List.map_filter web ?chunks)"
    by (elim conjE)
  with h1 show ?thesis by simp
qed

section \<open>Playback\<close>

lemma start_times_append: "start_times (es @ es') = start_times es @ start_times es'"
  by (induction es rule: start_times.induct) simp_all

lemma start_times_schedule_all:
  "start_times (effects (schedule_all chunks s)) =
   start_times (effects s) @ starts_from (nextStartTimeRef s) chunks"
  by (induction chunks s rule: schedule_all.induct)
     (simp_all add: schedule_chunk_simps start_times_append)

lemma scheduled_starts_eq: "scheduled_starts chunks s = starts_from (nextStartTimeRef s) chunks"
  by (simp add: scheduled_starts_def start_times_schedule_all)

lemma length_starts_from: "length (starts_from c chunks) = length chunks"
  by (induction c chunks rule: starts_from.induct) simp_all

text \<open>A chunk starts at the end of the one before it, or at its clock value if that is later.\<close>

lemma starts_from_Suc:
  "Suc i < length chunks \<Longrightarrow>
   starts_from c chunks ! Suc i =
     max (starts_from c chunks ! i + duration (snd (chunks ! i))) (fst (chunks ! Suc i))"
proof (induction c chunks arbitrary: i rule: starts_from.induct)
  case (1 cursor)
  then show ?case by simp
next
  case (2 cursor now audioBuffer chunks)
  show ?case
  proof (cases i)
    case 0
    with 2 obtain now' b' rest where "chunks = (now', b') # rest"
      by (cases chunks) auto
    with 0 show ?thesis by simp
  next
    case (Suc j)
    with 2 show ?thesis by simp
  qed
qed

lemma handle_audio_cursor:
  "handle_audio pf now c s = Inr s1 \<Longrightarrow> nextStartTimeRef s \<le> nextStartTimeRef s1"
proof (erule handle_audio_cases)
  fix b
  assume "s1 = schedule_chunk now b s"
  with duration_nonneg [of b] show ?thesis
    by (simp add: schedule_chunk_simps add_increasing2 max.coboundedI1)
qed simp

lemma fold_apply_update_cursor:
  "nextStartTimeRef (fold (apply_update pf) q s) = nextStartTimeRef s"
  by (induction q arbitrary: s) (simp_all add: apply_update_def run_updater_def split: Update.splits)

lemma cursor_monotone:
  "\<not> resets e \<Longrightarrow> nextStartTimeRef s \<le> nextStartTimeRef (step pf e s)"
proof (cases e)
  case (OnMessage now message)
  assume "\<not> resets e"
  with OnMessage show ?thesis
    using handle_audio_cursor
    by (auto simp: step_def resets_def onmessage_def handle_rest_playback
        split: option.splits sum.splits)
qed (simp_all add: step_def resets_def startSession_def stopSession_def toggleMute_def
      onopen_def onerror_def onclose_def onaudioprocess_def onended_def render_def
      connection_opened_def promise_then_def fulfil_def reject_def Let_def
      fold_apply_update_cursor split: option.splits)

text \<open>
  C1. Chunks are scheduled one after the other, each call made no later than the end
  of the chunk scheduled before it. Then every chunk but the first starts exactly where
  the one before it ends. Each call starts its source at the larger of the cursor and
  the output clock and moves the cursor to that time plus the duration of the chunk.
  No event moves the cursor back, except those that reset it: a session start that
  gets the microphone, and a message that carries an interruption.
\<close>

theorem gapless_scheduling:
  assumes "\<forall>i. Suc i < length chunks \<longrightarrow>
             fst (chunks ! Suc i) \<le> scheduled_starts chunks s ! i + duration (snd (chunks ! i))"
  shows "length (scheduled_starts chunks s) = length chunks
       \<and> (\<forall>i. Suc i < length chunks \<longrightarrow>
            scheduled_starts chunks s ! Suc i =
              scheduled_starts chunks s ! i + duration (snd (chunks ! i)))
       \<and> added s (schedule_chunk now audioBuffer s) =
            [SourceStart (fresh s) (max (nextStartTimeRef s) now)]
       \<and> nextStartTimeRef (schedule_chunk now audioBuffer s) =
            max (nextStartTimeRef s) now + duration audioBuffer
       \<and> (\<not> resets e \<longrightarrow> nextStartTimeRef s \<le> nextStartTimeRef (step pf e s))"
proof -
  have "scheduled_starts chunks s ! Suc i =
          scheduled_starts chunks s ! i + duration (snd (chunks ! i))"
    if i: "Suc i < length chunks" for i
  proof -
    from assms i have "fst (chunks ! Suc i)
        \<le> scheduled_starts chunks s ! i + duration (snd (chunks ! i))"
      by blast
    with starts_from_Suc [OF i, of "nextStartTimeRef s"] show ?thesis
      by (simp add: scheduled_starts_eq)
  qed
  then show ?thesis
    by (simp add: scheduled_starts_eq length_starts_from added_append schedule_chunk_simps
        cursor_monotone)
qed

text \<open>
  C1 at three chunks of a half, one and a quarter second, scheduled from the initial
  state at the clock values 0, 1/4 and 1: they start at 0, 1/2 and 3/2.
\<close>

theorem gapless_scheduling_witness:
  "1 / 4 \<le> scheduled_starts
       [(0, \<lparr>sampleRate = 24000, length_buffer = 12000\<rparr>),
        (1 / 4, \<lparr>sampleRate = 24000, length_buffer = 24000\<rparr>),
        (1, \<lparr>sampleRate = 24000, length_buffer = 6000\<rparr>)] initial ! 0
       + duration \<lparr>sampleRate = 24000, length_buffer = 12000\<rparr>
   \<and> scheduled_starts
       [(0, \<lparr>sampleRate = 24000, length_buffer = 12000\<rparr>),
        (1 / 4, \<lparr>sampleRate = 24000, length_buffer = 24000\<rparr>),
        (1, \<lparr>sampleRate = 24000, length_buffer = 6000\<rparr>)] initial ! Suc 0
     = scheduled_starts
       [(0, \<lparr>sampleRate = 24000, length_buffer = 12000\<rparr>),
        (1 / 4, \<lparr>sampleRate = 24000, length_buffer = 24000\<rparr>),
        (1, \<lparr>sampleRate = 24000, length_buffer = 6000\<rparr>)] initial ! 0
       + duration \<lparr>sampleRate = 24000, length_buffer = 12000\<rparr>
   \<and> scheduled_starts
       [(0, \<lparr>sampleRate = 24000, length_buffer = 12000\<rparr>),
        (1 / 4, \<lparr>sampleRate = 24000, length_buffer = 24000\<rparr>),
        (1, \<lparr>sampleRate = 24000, length_buffer = 6000\<rparr>)] initial ! Suc (Suc 0)
     = 1 / 2 + duration \<lparr>sampleRate = 24000, length_buffer = 24000\<rparr>
   \<and> nextStartTimeRef initial \<le> nextStartTimeRef (step batched OnClose initial)"
proof -
  let ?cs = "[(0, \<lparr>sampleRate = 24000, length_buffer = 12000\<rparr>),
              (1 / 4, \<lparr>sampleRate = 24000, length_buffer = 24000\<rparr>),
              (1, \<lparr>sampleRate = 24000, length_buffer = 6000\<rparr>)] :: (real \<times> AudioBuffer) list"
  have S: "scheduled_starts ?cs initial = [0, 1 / 2, 3 / 2]"
    by (simp add: scheduled_starts_def schedule_chunk_def set_add_def initial_def duration_def)
  have h: "\<forall>i. Suc i < length ?cs \<longrightarrow>
      fst (?cs ! Suc i) \<le> scheduled_starts ?cs initial ! i + duration (snd (?cs ! i))"
    unfolding S by (simp add: less_Suc_eq duration_def all_conj_distrib)
  have r: "\<not> resets OnClose"
    by (simp add: resets_def)
  note g = gapless_scheduling [OF h, of 0 half_second OnClose batched]
  from g have "\<forall>i. Suc i < length ?cs \<longrightarrow>
      scheduled_starts ?cs initial ! Suc i
        = scheduled_starts ?cs initial ! i + duration (snd (?cs ! i))"
    by (elim conjE)
  then have "scheduled_starts ?cs initial ! Suc 0
        = scheduled_starts ?cs initial ! 0 + duration (snd (?cs ! 0))"
      and "scheduled_starts ?cs initial ! Suc (Suc 0)
        = scheduled_starts ?cs initial ! Suc 0 + duration (snd (?cs ! Suc 0))"
    by simp_all
  moreover from g r have "nextStartTimeRef initial \<le> nextStartTimeRef (step batched OnClose initial)"
    by (elim conjE) simp
  moreover have "1 / 4 \<le> scheduled_starts ?cs initial ! 0
       + duration \<lparr>sampleRate = 24000, length_buffer = 12000\<rparr>"
    unfolding S by (simp add: duration_def)
  ultimately show ?thesis
    unfolding S by simp
qed

text \<open>
  C2. A message that carries an interruption, once handled, leaves the active set
  empty and the cursor at zero; every source that was in the active set, and the
  source the same message started, has been stopped; and a chunk scheduled next, at a
  clock value that is not negative, starts at that clock value.
\<close>

theorem interruption_reset:
  assumes "onmessage pf now message s = Inr s'"
    and "serverContent message = Some c"
    and "interrupted c"
    and "0 \<le> now'"
  shows "audioSourcesRef s' = []
       \<and> nextStartTimeRef s' = 0
       \<and> (\<forall>h \<in> set (audioSourcesRef s). SourceStop h \<in> set (added s s'))
       \<and> (\<forall>h t. SourceStart h t \<in> set (added s s') \<longrightarrow> SourceStop h \<in> set (added s s'))
       \<and> added s' (schedule_chunk now' audioBuffer s') = [SourceStart (fresh s') now']
       \<and> nextStartTimeRef (schedule_chunk now' audioBuffer s') = now' + duration audioBuffer"
proof -
  from assms(1,2) obtain s1 where s1: "handle_audio pf now c s = Inr s1"
    and s': "s' = handle_rest pf c s1"
    by (rule onmessage_Some)
  from s' assms(3) have a: "audioSourcesRef s' = []" and n: "nextStartTimeRef s' = 0"
    and e: "effects s' = effects s1 @ map SourceStop (audioSourcesRef s1)"
    by (simp_all add: handle_rest_playback)
  from s1 have stops: "(\<forall>h \<in> set (audioSourcesRef s). SourceStop h \<in> set (added s s'))
       \<and> (\<forall>h t. SourceStart h t \<in> set (added s s') \<longrightarrow> SourceStop h \<in> set (added s s'))"
  proof (cases rule: handle_audio_cases)
    case 1
    with e show ?thesis by (auto simp: added_def)
  next
    case (2 b)
    with e show ?thesis
      by (auto simp: added_def schedule_chunk_simps set_set_add)
  qed
  from n assms(4) have "added s' (schedule_chunk now' audioBuffer s') = [SourceStart (fresh s') now']"
    and "nextStartTimeRef (schedule_chunk now' audioBuffer s') = now' + duration audioBuffer"
    by (simp_all add: added_append schedule_chunk_simps)
  with a n stops show ?thesis by blast
qed

lemma playing_eval:
  "audioSourcesRef playing = [4]"
  "nextStartTimeRef playing = 1 / 2"
  "fresh playing = 5"
  "effects playing = [GetUserMedia 0, NewAudioContext 1 16000, NewAudioContext 2 24000,
     Connect 3, SourceStart 4 0]"
  "audioContextInRef playing = Some 1"
  "audioContextOutRef playing = Some 2"
  "sessionPromiseRef playing = Some 3"
  "audioStream playing = Some 0"
  "isActive playing"
  "fulfilled playing = [3]"
  "rejected playing = []"
  "waiting playing = []"
  by (simp_all add: playing_def schedule_chunk_def startSession_def onopen_def initial_def
      connection_opened_def fulfil_def set_add_def half_second_def duration_def Let_def)


text \<open>
  C2 at a session with one source playing until 1/2, which receives at the clock value
  1/4 a message with audio and an interruption: the playing source and the new one
  are stopped, and a chunk scheduled at the clock value 2 starts at 2.
\<close>

theorem interruption_reset_witness:
  "onmessage batched (1 / 4)
     \<lparr>serverContent = Some (no_content\<lparr>modelTurn := Some audio_turn, interrupted := True\<rparr>)\<rparr>
     playing
   = Inr (handle_rest batched (no_content\<lparr>modelTurn := Some audio_turn, interrupted := True\<rparr>)
            (schedule_chunk (1 / 4) half_second playing))
   \<and> nextStartTimeRef playing = 1 / 2
   \<and> added playing
        (handle_rest batched (no_content\<lparr>modelTurn := Some audio_turn, interrupted := True\<rparr>)
            (schedule_chunk (1 / 4) half_second playing))
      = [SourceStart 5 (1 / 2), SourceStop 4, SourceStop 5]
   \<and> SourceStop 4 \<in> set (added playing
        (handle_rest batched (no_content\<lparr>modelTurn := Some audio_turn, interrupted := True\<rparr>)
            (schedule_chunk (1 / 4) half_second playing)))
   \<and> added
        (handle_rest batched (no_content\<lparr>modelTurn := Some audio_turn, interrupted := True\<rparr>)
            (schedule_chunk (1 / 4) half_second playing))
        (schedule_chunk 2 half_second
          (handle_rest batched (no_content\<lparr>modelTurn := Some audio_turn, interrupted := True\<rparr>)
            (schedule_chunk (1 / 4) half_second playing)))
      = [SourceStart 6 2]"
proof -
  let ?c = "no_content\<lparr>modelTurn := Some audio_turn, interrupted := True\<rparr>"
  let ?s' = "handle_rest batched ?c (schedule_chunk (1 / 4) half_second playing)"
  have h1: "onmessage batched (1 / 4) \<lparr>serverContent = Some ?c\<rparr> playing = Inr ?s'"
    by (simp add: onmessage_def handle_audio_def base64Audio_def audio_turn_def batched_def
        half_second_def no_content_def)
  have h2: "serverContent \<lparr>serverContent = Some ?c\<rparr> = Some ?c" by simp
  have h3: "interrupted ?c" by simp
  have h4: "(0::real) \<le> 2" by simp
  note t = interruption_reset [OF h1 h2 h3 h4, of half_second]
  have f: "fresh ?s' = 6"
    by (simp add: handle_rest_playback schedule_chunk_simps playing_eval)
  have e: "added playing ?s' = [SourceStart 5 (1 / 2), SourceStop 4, SourceStop 5]"
    by (rule added_append)
       (simp add: handle_rest_playback schedule_chunk_simps playing_eval set_add_def)
  from t have "\<forall>h \<in> set (audioSourcesRef playing). SourceStop h \<in> set (added playing ?s')"
    by (elim conjE)
  then have a: "SourceStop 4 \<in> set (added playing ?s')"
    by (simp add: playing_eval)
  from t have "added ?s' (schedule_chunk 2 half_second ?s') = [SourceStart (fresh ?s') 2]"
    by (elim conjE)
  then have b: "added ?s' (schedule_chunk 2 half_second ?s') = [SourceStart 6 2]"
    by (simp only: f)
  from h1 e a b playing_eval(2) show ?thesis
    by (intro conjI)
qed

section \<open>Transcription\<close>

lemma step_simps:
  "step pf (StartSession g) s = startSession g s"
  "step pf StopSession s = stopSession s"
  "step pf ToggleMute s = toggleMute s"
  "step pf OnOpen s = connection_opened s"
  "step pf OnError s = onerror s"
  "step pf OnClose s = onclose s"
  "step pf (OnAudioProcess f) s = onaudioprocess f s"
  "step pf (OnEnded h) s = onended h s"
  "step pf Render s = render pf s"
  "step pf ConnectRejected s = reject (session_closure s) s"
  by (simp_all add: step_def)

lemma step_said:
  "step pf (OnMessage now (said User x)) s =
     s\<lparr>currentInputTranscriptionRef := currentInputTranscriptionRef s @ x\<rparr>"
  "step pf (OnMessage now (said Assistant x)) s =
     s\<lparr>currentOutputTranscriptionRef := currentOutputTranscriptionRef s @ x\<rparr>"
  by (simp_all add: step_def onmessage_def said_def handle_audio_def base64Audio_def
      handle_rest_def handle_transcription_def handle_grounding_def text_of_def no_content_def)

lemma step_turn_completed:
  "step pf (OnMessage now turn_completed) s = handle_turnComplete pf s"
  by (simp add: step_def onmessage_def turn_completed_def handle_audio_def base64Audio_def
      handle_rest_def handle_transcription_def handle_grounding_def no_content_def)

lemma platform_eval:
  "\<not> syncFlush batched" "\<not> syncFlush batched_eager" "syncFlush legacy"
  "\<not> eagerState batched" "eagerState batched_eager"
  "random batched 0 = ''0.z''" "random batched_eager 0 = ''0.z''" "random legacy 0 = ''0.z''"
  "random batched (Suc 0) = ''0.zz''" "random batched_eager (Suc 0) = ''0.zz''"
  "newDate batched k = 1000 + k" "newDate batched_eager k = 1000 + k"
  "newDate legacy k = 1000 + k"
  by (simp_all add: batched_def batched_eager_def legacy_def)

text \<open>
  With a synchronous flush, a completed turn appends one entry for each role whose
  buffer is not empty, the user first, with the text of the buffer, and clears both
  buffers.
\<close>

lemma turn_complete_sync:
  assumes "syncFlush pf"
  shows "entries (handle_turnComplete pf s) =
           entries s
           @ (if currentInputTranscriptionRef s = [] then []
              else [\<lparr>id_entry = random pf (draws s), role = User,
                     text_entry = currentInputTranscriptionRef s,
                     timestamp = newDate pf (draws s)\<rparr>])
           @ (if currentOutputTranscriptionRef s = [] then []
              else [\<lparr>id_entry = random pf (if currentInputTranscriptionRef s = []
                                             then draws s else Suc (draws s)),
                     role = Assistant,
                     text_entry = currentOutputTranscriptionRef s,
                     timestamp = newDate pf (if currentInputTranscriptionRef s = []
                                             then draws s else Suc (draws s))\<rparr>])"
    and "currentInputTranscriptionRef (handle_turnComplete pf s) = []"
    and "currentOutputTranscriptionRef (handle_turnComplete pf s) = []"
    and "entriesQueue (handle_turnComplete pf s) = entriesQueue s"
  using assms
  by (simp_all add: handle_turnComplete_def setEntries_def run_updater_def new_entry_def Let_def)

text \<open>
  With batched updates, the same entries are appended at the next render and both
  buffers are cleared, but an updater that React calls during the render finds the
  buffers empty: only the first entry of the turn, and only where React computes it
  eagerly, has the text of its buffer. The entry of the assistant, in a turn in which
  the user has spoken too, has an empty text on every batching platform.
\<close>

lemma turn_complete_batched:
  assumes "\<not> syncFlush pf" and "entriesQueue s = []"
  shows "entries (render pf (handle_turnComplete pf s)) =
           entries s
           @ (if currentInputTranscriptionRef s = [] then []
              else [\<lparr>id_entry = random pf (draws s), role = User,
                     text_entry = (if eagerState pf then currentInputTranscriptionRef s else []),
                     timestamp = newDate pf (draws s)\<rparr>])
           @ (if currentOutputTranscriptionRef s = [] then []
              else [\<lparr>id_entry = random pf (if currentInputTranscriptionRef s = []
                                             then draws s else Suc (draws s)),
                     role = Assistant,
                     text_entry = (if eagerState pf \<and> currentInputTranscriptionRef s = []
                                   then currentOutputTranscriptionRef s else []),
                     timestamp = newDate pf (if currentInputTranscriptionRef s = []
                                             then draws s else Suc (draws s))\<rparr>])"
    and "currentInputTranscriptionRef (render pf (handle_turnComplete pf s)) = []"
    and "currentOutputTranscriptionRef (render pf (handle_turnComplete pf s)) = []"
  using assms
  by (simp_all add: handle_turnComplete_def setEntries_def run_updater_def new_entry_def
      apply_update_def render_def Let_def)

text \<open>
  C3 does not hold where React batches updates. The user says Hi, the assistant says
  Hello, the turn completes and React renders: there are two entries, the user first,
  and the text of the assistant's entry is empty, whether React computes eagerly (then
  the user's entry has the text Hi) or not (then it is empty too). The updater of line
  121 reads the ref when React calls it, and line 129 has cleared the ref by then.
  The fragments Hel and lo of the user, followed by a completed turn and a render,
  give one entry with an empty text where React does not compute eagerly, and with the
  text Hello where it does, or flushes synchronously.
\<close>

theorem turn_complete_text_lost:
  "entries (run batched
      [OnMessage 0 (said User ''Hi''), OnMessage 0 (said Assistant ''Hello''),
       OnMessage 0 turn_completed, Render] initial)
     = [\<lparr>id_entry = ''0.z'', role = User, text_entry = '''', timestamp = 1000\<rparr>,
        \<lparr>id_entry = ''0.zz'', role = Assistant, text_entry = '''', timestamp = 1001\<rparr>]
   \<and> entries (run batched_eager
      [OnMessage 0 (said User ''Hi''), OnMessage 0 (said Assistant ''Hello''),
       OnMessage 0 turn_completed, Render] initial)
     = [\<lparr>id_entry = ''0.z'', role = User, text_entry = ''Hi'', timestamp = 1000\<rparr>,
        \<lparr>id_entry = ''0.zz'', role = Assistant, text_entry = '''', timestamp = 1001\<rparr>]
   \<and> entries (run batched
      [OnMessage 0 (said User ''Hel''), OnMessage 0 (said User ''lo''),
       OnMessage 0 turn_completed, Render] initial)
     = [\<lparr>id_entry = ''0.z'', role = User, text_entry = '''', timestamp = 1000\<rparr>]
   \<and> entries (run batched_eager
      [OnMessage 0 (said User ''Hel''), OnMessage 0 (said User ''lo''),
       OnMessage 0 turn_completed, Render] initial)
     = [\<lparr>id_entry = ''0.z'', role = User, text_entry = ''Hello'', timestamp = 1000\<rparr>]
   \<and> entries (run legacy
      [OnMessage 0 (said User ''Hel''), OnMessage 0 (said User ''lo''),
       OnMessage 0 turn_completed, Render] initial)
     = [\<lparr>id_entry = ''0.z'', role = User, text_entry = ''Hello'', timestamp = 1000\<rparr>]"
  by (simp add: step_said step_turn_completed step_simps handle_turnComplete_def
      setEntries_def run_updater_def new_entry_def apply_update_def render_def
      platform_eval initial_def)

section \<open>Mute\<close>

text \<open>
  Whether a frame is sent, once the session promise has fulfilled, depends on the value
  the callback closed over, and the mute button changes the state, not that value.
\<close>

lemma mute_gate_reads_closure:
  "session_closure s \<in> set (fulfilled s) \<Longrightarrow>
   added s (onaudioprocess inputData s) =
     (if isMuted_closure s then [] else [SendRealtimeInput (session_closure s) inputData])"
  "isMuted_closure (toggleMute s) = isMuted_closure s"
  "isMuted (toggleMute s) = (\<not> isMuted s)"
  "isActive (toggleMute s) = isActive s"
  by (simp_all add: added_def onaudioprocess_def promise_then_def call_of_def toggleMute_def)

text \<open>
  C4 does not hold: \<^verbatim>\<open>onaudioprocess\<close> tests the \<open>isMuted\<close> of the render that
  \<^verbatim>\<open>startSession\<close> was called from, not the current one. A session is started
  unmuted and then muted: it is active and muted, and a captured frame is sent. The
  session is stopped and a new one started while muted, then unmuted: it is active and
  not muted, and a captured frame is not sent. While muted, the visualizer is told not
  to listen.
\<close>

theorem mute_closure_stale:
  "isActive (run batched [StartSession True, OnOpen, ToggleMute] initial)
   \<and> isMuted (run batched [StartSession True, OnOpen, ToggleMute] initial)
   \<and> added (run batched [StartSession True, OnOpen, ToggleMute] initial)
        (run batched [StartSession True, OnOpen, ToggleMute, OnAudioProcess [0, 1 / 2]] initial)
       = [SendRealtimeInput 3 [0, 1 / 2]]
   \<and> isActive (run batched [StartSession True, OnOpen, ToggleMute, StopSession,
          StartSession True, OnOpen, ToggleMute] initial)
   \<and> \<not> isMuted (run batched [StartSession True, OnOpen, ToggleMute, StopSession,
          StartSession True, OnOpen, ToggleMute] initial)
   \<and> added (run batched [StartSession True, OnOpen, ToggleMute, StopSession,
          StartSession True, OnOpen, ToggleMute] initial)
        (run batched [StartSession True, OnOpen, ToggleMute, StopSession,
          StartSession True, OnOpen, ToggleMute, OnAudioProcess [0, 1 / 2]] initial)
       = []
   \<and> \<not> isListening (run batched [StartSession True, OnOpen, ToggleMute] initial)"
  by (simp add: step_simps startSession_def onopen_def toggleMute_def stopSession_def
      onaudioprocess_def connection_opened_def fulfil_def promise_then_def call_of_def
      set_add_def added_def isListening_def initial_def Let_def)

section \<open>Teardown\<close>

text \<open>
  The calls that stop makes: close on each context that a ref holds, stop on every
  source of the active set, and close on the session if its promise has fulfilled.
\<close>

lemma effects_stopSession:
  "effects (stopSession s) = effects s
     @ (case audioContextInRef s of None \<Rightarrow> [] | Some ctx \<Rightarrow> [ContextClose ctx])
     @ (case audioContextOutRef s of None \<Rightarrow> [] | Some ctx \<Rightarrow> [ContextClose ctx])
     @ map SourceStop (audioSourcesRef s)
     @ (case sessionPromiseRef s of
          None \<Rightarrow> []
        | Some p \<Rightarrow> if p \<in> set (fulfilled s) then [SessionClose p] else [])"
  by (simp add: stopSession_def promise_then_def call_of_def Let_def split: option.splits)

lemma stopSession_simps:
  "isActive (stopSession s) = False"
  "audioStream (stopSession s) = None"
  "audioSourcesRef (stopSession s) = []"
  "sessionPromiseRef (stopSession s) = None"
  "audioContextInRef (stopSession s) = audioContextInRef s"
  "audioContextOutRef (stopSession s) = audioContextOutRef s"
  "nextStartTimeRef (stopSession s) = nextStartTimeRef s"
  "fulfilled (stopSession s) = fulfilled s"
  "rejected (stopSession s) = rejected s"
  by (simp_all add: stopSession_def promise_then_def Let_def split: option.splits)

lemma waiting_stopSession:
  "waiting (stopSession s) = waiting s
     @ (case sessionPromiseRef s of
          None \<Rightarrow> []
        | Some p \<Rightarrow> if p \<in> set (fulfilled s) \<or> p \<in> set (rejected s) then []
                    else [(p, CloseSession)])"
  by (simp add: stopSession_def promise_then_def Let_def split: option.splits)

lemma added_stopSession:
  "added s (stopSession s) =
       (case audioContextInRef s of None \<Rightarrow> [] | Some ctx \<Rightarrow> [ContextClose ctx])
     @ (case audioContextOutRef s of None \<Rightarrow> [] | Some ctx \<Rightarrow> [ContextClose ctx])
     @ map SourceStop (audioSourcesRef s)
     @ (case sessionPromiseRef s of
          None \<Rightarrow> []
        | Some p \<Rightarrow> if p \<in> set (fulfilled s) then [SessionClose p] else [])"
  by (rule added_append) (rule effects_stopSession)

text \<open>
  A stop while the session is still connecting closes both contexts and makes no call
  on the session: the closing waits on the promise. It is made when the connection
  opens, and never if the promise rejects.
\<close>

lemma stop_while_connecting:
  "added (startSession True initial) (stopSession (startSession True initial))
     = [ContextClose 1, ContextClose 2]"
  "waiting (stopSession (startSession True initial)) = [(3, CloseSession)]"
  "added (stopSession (startSession True initial))
     (step pf OnOpen (stopSession (startSession True initial))) = [SessionClose 3]"
  "added (stopSession (startSession True initial))
     (step pf ConnectRejected (stopSession (startSession True initial))) = []"
  "waiting (step pf ConnectRejected (stopSession (startSession True initial))) = []"
  by (simp_all add: step_simps added_def stopSession_def promise_then_def startSession_def
      connection_opened_def onopen_def fulfil_def reject_def call_of_def set_add_def
      initial_def Let_def)

text \<open>
  C5 does not hold. A session with one source playing is stopped: both contexts are
  closed, the source is stopped and the session is closed, but no track of the
  acquired microphone has been stopped. A second stop is not without effect: it calls
  close on both audio contexts again, so that each context has been closed twice;
  lines 31 and 33 empty the active set and forget the session, and nothing forgets the
  contexts.
\<close>

theorem stop_teardown_incomplete:
  "\<not> mic_released (effects (stopSession playing))
   \<and> added playing (stopSession playing)
       = [ContextClose 1, ContextClose 2, SourceStop 4, SessionClose 3]
   \<and> added (stopSession playing) (stopSession (stopSession playing))
       = [ContextClose 1, ContextClose 2]
   \<and> count_list (effects (stopSession (stopSession playing))) (ContextClose 1) = 2
   \<and> count_list (effects (stopSession (stopSession playing))) (ContextClose 2) = 2"
  by (simp add: added_stopSession stopSession_simps effects_stopSession playing_eval
      mic_released_def)

text \<open>In every state, the close callback makes no call on a resource and keeps every ref.\<close>

lemma onclose_releases_nothing:
  "added s (onclose s) = []"
  "audioSourcesRef (onclose s) = audioSourcesRef s"
  "audioContextInRef (onclose s) = audioContextInRef s"
  "audioContextOutRef (onclose s) = audioContextOutRef s"
  "sessionPromiseRef (onclose s) = sessionPromiseRef s"
  "audioStream (onclose s) = audioStream s"
  by (simp_all add: added_def onclose_def)

text \<open>
  C6 does not hold. When the transport closes a session with one source playing,
  \<^verbatim>\<open>onclose\<close> only marks the session inactive: no call is made on any resource, the
  source stays in the active set, and the contexts, the session and the stream stay
  where they were. The error callback and the stop button, from the same state, close
  both contexts, stop the source and close the session.
\<close>

theorem remote_close_no_teardown:
  "onclose playing = playing\<lparr>isActive := False\<rparr>
   \<and> added playing (step batched OnClose playing) = []
   \<and> audioSourcesRef (step batched OnClose playing) = [4]
   \<and> audioContextInRef (step batched OnClose playing) = Some 1
   \<and> audioContextOutRef (step batched OnClose playing) = Some 2
   \<and> sessionPromiseRef (step batched OnClose playing) = Some 3
   \<and> audioStream (step batched OnClose playing) = Some 0
   \<and> added playing (step batched OnError playing)
       = [ContextClose 1, ContextClose 2, SourceStop 4, SessionClose 3]
   \<and> added playing (step batched StopSession playing)
       = [ContextClose 1, ContextClose 2, SourceStop 4, SessionClose 3]"
  by (simp add: step_simps onclose_def onerror_def added_def effects_stopSession playing_eval)

section \<open>Round trip of the PCM codec\<close>

lemma bytes_int16_bytes: "bytes_int16 (int16_bytes w @ bs) = w # bytes_int16 bs"
proof -
  have "push_bit 8 (ucast (ucast (drop_bit 8 w) :: 8 word)) OR ucast (ucast w :: 8 word) = w"
    by (rule bit_word_eqI) (auto simp add: bit_simps)
  then show ?thesis by (simp add: int16_bytes_def)
qed

lemma decode_encode_words: "bytes_int16 (encodeFrame samples) = map to_int16 samples"
  by (induction samples) (simp_all add: encodeFrame_def bytes_int16_bytes)

lemma length_encodeFrame: "length (encodeFrame samples) = 2 * length samples"
  by (induction samples) (simp_all add: encodeFrame_def int16_bytes_def)

lemma sint_to_int16:
  "sint (to_int16 x) = max (- 32768) (min 32767 \<lfloor>clamp_sample x * 32768\<rfloor>)"
  by (simp add: to_int16_def sint_sbintrunc' signed_take_bit_int_eq_self_iff)

lemma clamp_sample_idem: "clamp_sample (clamp_sample x) = clamp_sample x"
  by (simp add: clamp_sample_def)

lemma quantization:
  assumes "- 1 \<le> x" "x \<le> 1"
  shows "\<bar>from_int16 (to_int16 x) - x\<bar> \<le> 1 / 32768"
proof -
  let ?k = "\<lfloor>x * 32768\<rfloor>"
  from assms have c: "clamp_sample x = x" by (simp add: clamp_sample_def)
  have lo: "real_of_int ?k \<le> x * 32768" and hi: "x * 32768 < real_of_int ?k + 1"
    by linarith+
  from assms have "- 32768 \<le> x * 32768" "x * 32768 \<le> 32768" by simp_all
  then have k: "- 32768 \<le> ?k" "?k \<le> 32768"
    by (simp_all add: le_floor_iff floor_le_iff)
  show ?thesis
  proof (cases "?k = 32768")
    case True
    with lo assms have "x = 1" by simp
    moreover from True have "sint (to_int16 x) = 32767" by (simp add: sint_to_int16 c)
    ultimately show ?thesis by (simp add: from_int16_def)
  next
    case False
    with k have "- 32768 \<le> ?k \<and> ?k \<le> 32767" by linarith
    then have "max (- 32768) (min 32767 ?k) = ?k" by linarith
    then have "from_int16 (to_int16 x) = real_of_int ?k / 32768"
      by (simp add: from_int16_def sint_to_int16 c)
    with lo hi show ?thesis by linarith
  qed
qed

lemma channel_of_mono: "channel_of (Suc 0) 0 xs = xs"
  by (simp add: channel_of_def map_nth)

lemma decode_encode:
  "decodeToBuffer (encodeFrame samples) rate (Suc 0) =
     Inr \<lparr>buffer_sampleRate = rate, channelData = [map (\<lambda>x. from_int16 (to_int16 x)) samples]\<rparr>"
  by (simp add: decodeToBuffer_def length_encodeFrame decode_encode_words channel_of_mono comp_def)

text \<open>
  C9. For samples from -1 to 1, decoding the encoded frame as one channel gives a
  buffer with one sample for each sample of the frame, each within \<open>2 ^ 15\<close>-th of the
  original; encoding clamps, so that a sample and its clamped value encode alike, and
  the encoded value of a sample is its clamped value scaled by \<open>2 ^ 15\<close>, rounded down
  and kept in the signed 16-bit range. Encoding is a function of the samples alone.
\<close>

theorem codec_round_trip:
  assumes "\<forall>x \<in> set samples. - 1 \<le> x \<and> x \<le> 1"
  shows "(\<exists>decoded.
            decodeToBuffer (encodeFrame samples) targetSampleRate 1
              = Inr \<lparr>buffer_sampleRate = targetSampleRate, channelData = [decoded]\<rparr>
          \<and> length decoded = length samples
          \<and> (\<forall>i < length samples. \<bar>decoded ! i - samples ! i\<bar> \<le> 1 / 32768))
       \<and> to_int16 (clamp_sample y) = to_int16 y
       \<and> sint (to_int16 y) = max (- 32768) (min 32767 \<lfloor>clamp_sample y * 32768\<rfloor>)"
proof -
  let ?decoded = "map (\<lambda>x. from_int16 (to_int16 x)) samples"
  have "\<bar>?decoded ! i - samples ! i\<bar> \<le> 1 / 32768" if "i < length samples" for i
    using that assms quantization [of "samples ! i"] by simp
  then have "decodeToBuffer (encodeFrame samples) targetSampleRate 1
              = Inr \<lparr>buffer_sampleRate = targetSampleRate, channelData = [?decoded]\<rparr>
          \<and> length ?decoded = length samples
          \<and> (\<forall>i < length samples. \<bar>?decoded ! i - samples ! i\<bar> \<le> 1 / 32768)"
    by (simp add: decode_encode)
  then have "\<exists>decoded.
            decodeToBuffer (encodeFrame samples) targetSampleRate 1
              = Inr \<lparr>buffer_sampleRate = targetSampleRate, channelData = [decoded]\<rparr>
          \<and> length decoded = length samples
          \<and> (\<forall>i < length samples. \<bar>decoded ! i - samples ! i\<bar> \<le> 1 / 32768)"
    by (rule exI)
  moreover have "to_int16 (clamp_sample y) = to_int16 y"
    by (simp add: to_int16_def clamp_sample_idem)
  ultimately show ?thesis
    using sint_to_int16 [of y] by blast
qed

text \<open>C9 at the frame 1, -1, 1/2, 0, 1/3: the decoded samples, and the error at 1.\<close>

theorem codec_round_trip_witness:
  "decodeToBuffer (encodeFrame [1, - 1, 1 / 2, 0, 1 / 3]) 24000 1
       = Inr \<lparr>buffer_sampleRate = 24000,
              channelData = [[32767 / 32768, - 1, 1 / 2, 0, 10922 / 32768]]\<rparr>
   \<and> \<bar>[32767 / 32768, - 1, 1 / 2, 0, 10922 / 32768] ! 0 - [1, - 1, 1 / 2, 0, 1 / 3 :: real] ! 0\<bar>
       \<le> 1 / 32768"
proof -
  let ?xs = "[1, - 1, 1 / 2, 0, 1 / 3 :: real]"
  have h: "\<forall>x \<in> set ?xs. - 1 \<le> x \<and> x \<le> 1" by simp
  have d: "decodeToBuffer (encodeFrame ?xs) 24000 1
       = Inr \<lparr>buffer_sampleRate = 24000,
              channelData = [[32767 / 32768, - 1, 1 / 2, 0, 10922 / 32768]]\<rparr>"
    by (simp add: decode_encode from_int16_def sint_to_int16 clamp_sample_def)
  from codec_round_trip [OF h, of 24000 0] obtain decoded
    where "decodeToBuffer (encodeFrame ?xs) 24000 1
              = Inr \<lparr>buffer_sampleRate = 24000, channelData = [decoded]\<rparr>"
      and "\<forall>i < length ?xs. \<bar>decoded ! i - ?xs ! i\<bar> \<le> 1 / 32768"
    by blast
  with d have "\<forall>i < length ?xs.
      \<bar>[32767 / 32768, - 1, 1 / 2, 0, 10922 / 32768] ! i - ?xs ! i\<bar> \<le> 1 / 32768"
    by simp
  then have "\<bar>[32767 / 32768, - 1, 1 / 2, 0, 10922 / 32768] ! 0 - ?xs ! 0\<bar> \<le> 1 / 32768"
    by (rule allE) simp
  with d show ?thesis by (intro conjI)
qed

end
